theory Spec2Isabelle
  imports Main
begin

section \<open>JavaScript built-ins used by the sources\<close>

subsection \<open>Arrays and strings\<close>

text \<open>
  Arrays are lists. \<open>push\<close> appends at the back; \<open>shift\<close> removes the front element and
  returns it, and returns \<open>undefined\<close> (here \<open>None\<close>) on an empty array.
\<close>

definition push :: "'a list \<Rightarrow> 'a \<Rightarrow> 'a list" where
  "push xs x = xs @ [x]"

fun shift :: "'a list \<Rightarrow> 'a option \<times> 'a list" where
  "shift [] = (None, [])"
| "shift (x # xs) = (Some x, xs)"

text \<open>
  \<open>includes\<close> and \<open>indexOf\<close> compare object references and strings by identity of value;
  \<open>indexOf\<close> answers \<open>-1\<close> when the element is absent. \<open>Array_splice start count\<close> removes
  \<open>count\<close> elements from position \<open>start\<close>, a negative \<open>start\<close> counting from the back.
  \<open>some\<close> is \<^const>\<open>list_ex\<close>.
\<close>

definition Array_includes :: "'a list \<Rightarrow> 'a \<Rightarrow> bool" where
  "Array_includes xs x = (x \<in> set xs)"

fun indexOf :: "'a list \<Rightarrow> 'a \<Rightarrow> int" where
  "indexOf [] x = - 1"
| "indexOf (y # ys) x =
     (if y = x then 0 else (let i = indexOf ys x in if i = - 1 then - 1 else i + 1))"

definition Array_splice :: "int \<Rightarrow> nat \<Rightarrow> 'a list \<Rightarrow> 'a list" where
  "Array_splice start count xs =
     (let len = int (length xs);
          actualStart = (if start < 0 then max (len + start) 0 else min start len)
      in take (nat actualStart) xs @ drop (nat actualStart + count) xs)"

text \<open>
  Strings are compared character by character. \<open>toLowerCase\<close> is modelled on the letters
  A to Z; every other character is left as it is. The theorems that speak of all
  usernames do not look into this function, so they hold for any lowering of characters.
\<close>

definition toLowerCase_char :: "char \<Rightarrow> char" where
  "toLowerCase_char c =
     (case map_of (zip ''ABCDEFGHIJKLMNOPQRSTUVWXYZ'' ''abcdefghijklmnopqrstuvwxyz'') c of
        None \<Rightarrow> c
      | Some l \<Rightarrow> l)"

definition toLowerCase :: "string \<Rightarrow> string" where
  "toLowerCase s = map toLowerCase_char s"

subsection \<open>The built-in \<open>Map\<close>\<close>

text \<open>
  A \<open>Map\<close> holds its entries in insertion order, one entry per key. The type is the
  lists of entries with pairwise different keys. \<open>set\<close> on a key that is present
  replaces the value where the entry stands; on a new key it appends the entry.
\<close>

typedef ('k, 'v) js_map = "{es :: ('k \<times> 'v) list. distinct (map fst es)}"
  morphisms entries Abs_js_map
  by (rule exI [of _ "[]"]) simp

setup_lifting type_definition_js_map

fun entries_set :: "'k \<Rightarrow> 'v \<Rightarrow> ('k \<times> 'v) list \<Rightarrow> ('k \<times> 'v) list" where
  "entries_set k v [] = [(k, v)]"
| "entries_set k v ((k', v') # es) =
     (if k' = k then (k, v) # es else (k', v') # entries_set k v es)"

lemma keys_entries_set:
  "map fst (entries_set k v es) =
     (if k \<in> set (map fst es) then map fst es else map fst es @ [k])"
  by (induction es) force+

lift_definition Map_new :: "('k, 'v) js_map" is "[]"
  by simp

lift_definition Map_set :: "'k \<Rightarrow> 'v \<Rightarrow> ('k, 'v) js_map \<Rightarrow> ('k, 'v) js_map" is entries_set
  by (simp add: keys_entries_set)

definition Map_keys :: "('k, 'v) js_map \<Rightarrow> 'k list" where
  "Map_keys m = map fst (entries m)"

definition Map_size :: "('k, 'v) js_map \<Rightarrow> nat" where
  "Map_size m = length (entries m)"

definition Map_has :: "'k \<Rightarrow> ('k, 'v) js_map \<Rightarrow> bool" where
  "Map_has k m = (k \<in> set (Map_keys m))"

definition Map_get :: "'k \<Rightarrow> ('k, 'v) js_map \<Rightarrow> 'v option" where
  "Map_get k m = map_of (entries m) k"

section \<open>RateLimiter.js\<close>

text \<open>
  The class has three fields. Timestamps are the integer milliseconds of \<open>Date.now()\<close>;
  every method that reads the clock takes the reading as its argument \<open>now\<close>.
\<close>

record rate_limiter =
  maxOperations :: int
  timePeriod :: int
  history :: "int list"

definition RateLimiter_constructor :: "int \<Rightarrow> int \<Rightarrow> rate_limiter" where
  "RateLimiter_constructor maxOps period =
     \<lparr>maxOperations = maxOps, timePeriod = period, history = []\<rparr>"

text \<open>
  \<open>rateLimited\<close> returns the boolean of the source together with the limiter after the
  call. When \<open>shift\<close> returns \<open>undefined\<close> the subtraction is \<open>NaN\<close> and the comparison
  is false.
\<close>

definition rateLimited :: "int \<Rightarrow> rate_limiter \<Rightarrow> bool \<times> rate_limiter" where
  "rateLimited now s =
     (let h = push (history s) now in
      if int (length h) > maxOperations s then
        (case shift h of
           (None, h') \<Rightarrow> (False, s\<lparr>history := h'\<rparr>)
         | (Some period, h') \<Rightarrow>
             (let timeSince = now - period in (timeSince < timePeriod s, s\<lparr>history := h'\<rparr>)))
      else (False, s\<lparr>history := h\<rparr>))"

text \<open>A run of calls, one per clock reading, collecting the answers in order.\<close>

fun rateLimited_calls :: "int list \<Rightarrow> rate_limiter \<Rightarrow> bool list \<times> rate_limiter" where
  "rateLimited_calls [] s = ([], s)"
| "rateLimited_calls (now # nows) s =
     (case rateLimited now s of
        (limited, s') \<Rightarrow>
          (case rateLimited_calls nows s' of (answers, s'') \<Rightarrow> (limited # answers, s'')))"

section \<open>Room.js\<close>

text \<open>
  The module \<open>./validators\<close> is not among the sources. Its two predicates are a parameter
  of the methods that call them: the record \<open>validators\<close> holds them.
\<close>

record validators =
  isValidVariableName :: "string \<Rightarrow> bool"
  isValidVariableValue :: "string \<Rightarrow> bool"

text \<open>
  Modelled from the spec: the class \<open>./Client\<close> is not among the sources. A client has a
  stable identity, used for membership, and a \<open>username\<close> string field that the room
  reads. A \<open>client\<close> is an object reference. The \<open>username\<close> fields of the client objects
  are a store from references to strings, a parameter of the one method that reads them.
\<close>

type_synonym client = nat

text \<open>
  Every \<open>throw new Error(message)\<close> is the value \<open>Error message\<close>. The names on the left
  are the ones the specification gives to the seven messages.
\<close>

datatype error = Error string

abbreviation AlreadyMember :: error where
  "AlreadyMember \<equiv> Error ''Client is already added to this Room.''"

abbreviation NotMember :: error where
  "NotMember \<equiv> Error ''Client does not belong to this Room''"

abbreviation InvalidName :: error where
  "InvalidName \<equiv> Error ''Invalid variable name''"

abbreviation InvalidValue :: error where
  "InvalidValue \<equiv> Error ''Invalid value''"

abbreviation AlreadyExists :: error where
  "AlreadyExists \<equiv> Error ''Variable already exists''"

abbreviation Capacity :: error where
  "Capacity \<equiv> Error ''Too many variables''"

abbreviation NotFound :: error where
  "NotFound \<equiv> Error ''Variable does not exist''"

record room =
  id_room :: string
  variables :: "(string, string) js_map"
  clients :: "client list"
  lastDisconnectTime :: int
  maxVariables :: int

definition Room_constructor :: "string \<Rightarrow> room" where
  "Room_constructor ident =
     \<lparr>id_room = ident, variables = Map_new, clients = [], lastDisconnectTime = - 1,
      maxVariables = 10\<rparr>"

text \<open>
  Every method takes the room and returns its result together with the room after the
  call. A method that throws returns \<open>Inl\<close> of the error and the room as the statements
  before the \<open>throw\<close> left it.
\<close>

definition addClient :: "client \<Rightarrow> room \<Rightarrow> (error + unit) \<times> room" where
  "addClient client r =
     (if Array_includes (clients r) client then (Inl AlreadyMember, r)
      else (Inr (), r\<lparr>clients := push (clients r) client\<rparr>))"

definition removeClient :: "int \<Rightarrow> client \<Rightarrow> room \<Rightarrow> (error + unit) \<times> room" where
  "removeClient now client r =
     (let index = indexOf (clients r) client in
      if index = - 1 then (Inl NotMember, r)
      else (Inr (), r\<lparr>clients := Array_splice index 1 (clients r), lastDisconnectTime := now\<rparr>))"

definition getClients :: "room \<Rightarrow> client list \<times> room" where
  "getClients r = (clients r, r)"

definition getAllVariables :: "room \<Rightarrow> (string, string) js_map \<times> room" where
  "getAllVariables r = (variables r, r)"

definition has :: "string \<Rightarrow> room \<Rightarrow> bool \<times> room" where
  "has name r = (Map_has name (variables r), r)"

definition create :: "validators \<Rightarrow> string \<Rightarrow> string \<Rightarrow> room \<Rightarrow> (error + unit) \<times> room" where
  "create vs name value r =
     (if \<not> isValidVariableName vs name then (Inl InvalidName, r)
      else if \<not> isValidVariableValue vs value then (Inl InvalidValue, r)
      else
        (case has name r of
           (present, r1) \<Rightarrow>
             if present then (Inl AlreadyExists, r1)
             else if int (Map_size (variables r1)) \<ge> maxVariables r1 then (Inl Capacity, r1)
             else (Inr (), r1\<lparr>variables := Map_set name value (variables r1)\<rparr>)))"

definition set_room :: "validators \<Rightarrow> string \<Rightarrow> string \<Rightarrow> room \<Rightarrow> (error + unit) \<times> room" where
  "set_room vs name value r =
     (if \<not> isValidVariableName vs name then (Inl InvalidName, r)
      else if \<not> isValidVariableValue vs value then (Inl InvalidValue, r)
      else
        (case has name r of
           (present, r1) \<Rightarrow>
             if \<not> present then (Inl NotFound, r1)
             else (Inr (), r1\<lparr>variables := Map_set name value (variables r1)\<rparr>)))"

definition hasClientWithUsername :: "(client \<Rightarrow> string) \<Rightarrow> string \<Rightarrow> room \<Rightarrow> bool \<times> room" where
  "hasClientWithUsername username_of username r =
     (let username' = toLowerCase username in
      case getClients r of
        (cs, r1) \<Rightarrow> (list_ex (\<lambda>i. toLowerCase (username_of i) = username') cs, r1))"

text \<open>The \<open>for\<close> loop of \<open>matchesVariableList\<close> over the keys of the map.\<close>

fun matchesVariableList_loop :: "string list \<Rightarrow> string list \<Rightarrow> bool" where
  "matchesVariableList_loop variables_arg [] = True"
| "matchesVariableList_loop variables_arg (variableName # keys) =
     (if indexOf variables_arg variableName = - 1 then False
      else matchesVariableList_loop variables_arg keys)"

definition matchesVariableList :: "string list \<Rightarrow> room \<Rightarrow> bool \<times> room" where
  "matchesVariableList variables_arg r =
     (if length variables_arg \<noteq> Map_size (variables r) then (False, r)
      else
        (case getAllVariables r of
           (vars, r1) \<Rightarrow> (matchesVariableList_loop variables_arg (Map_keys vars), r1)))"

text \<open>
  The username invariant of the specification: no two different clients of the room have
  usernames that are equal after \<open>toLowerCase\<close>.
\<close>

definition usernames_unique :: "(client \<Rightarrow> string) \<Rightarrow> room \<Rightarrow> bool" where
  "usernames_unique username_of r =
     (\<forall>c \<in> set (clients r). \<forall>d \<in> set (clients r).
        c \<noteq> d \<longrightarrow> toLowerCase (username_of c) \<noteq> toLowerCase (username_of d))"

text \<open>
  Sample data: client objects whose usernames differ in case only, client objects with
  different usernames, and a pair of validators.
\<close>

definition alice_and_Alice :: "client \<Rightarrow> string" where
  "alice_and_Alice c = (if c = 1 then ''alice'' else ''Alice'')"

definition alice_and_Bob :: "client \<Rightarrow> string" where
  "alice_and_Bob c = (if c = 1 then ''alice'' else ''Bob'')"

definition sample_validators :: validators where
  "sample_validators =
     \<lparr>isValidVariableName = (\<lambda>name. name \<noteq> []),
      isValidVariableValue = (\<lambda>value. length value \<le> 3)\<rparr>"

text \<open>A room filled to its default capacity of ten variables by ten calls of \<open>create\<close>.\<close>

definition full_room :: room where
  "full_room =
     fold (\<lambda>name r. snd (create sample_validators name ''0'' r))
       [''a'', ''b'', ''c'', ''d'', ''e'', ''f'', ''g'', ''h'', ''i'', ''j'']
       (Room_constructor ''lobby'')"

section \<open>Properties of the rate limiter\<close>

subsection \<open>Basic facts about one call\<close>

lemma rateLimited_below:
  assumes "int (length (history s)) < maxOperations s"
  shows "rateLimited now s = (False, s\<lparr>history := history s @ [now]\<rparr>)"
  using assms by (simp add: rateLimited_def push_def Let_def)

lemma rateLimited_full:
  assumes "history s = oldest # rest" and "maxOperations s \<le> int (length (history s))"
  shows "rateLimited now s = (now - oldest < timePeriod s, s\<lparr>history := rest @ [now]\<rparr>)"
  using assms by (simp add: rateLimited_def push_def Let_def)

lemma rateLimited_maxOperations: "maxOperations (snd (rateLimited now s)) = maxOperations s"
  by (cases "history s") (simp_all add: rateLimited_def push_def Let_def)

lemma rateLimited_timePeriod: "timePeriod (snd (rateLimited now s)) = timePeriod s"
  by (cases "history s") (simp_all add: rateLimited_def push_def Let_def)

lemma rateLimited_history_cases:
  "history (snd (rateLimited now s)) = history s @ [now] \<or>
   history (snd (rateLimited now s)) = tl (history s @ [now])"
  by (cases "history s") (simp_all add: rateLimited_def push_def Let_def)

lemma rateLimited_calls_below:
  "int (length (history s)) + int (length nows) \<le> maxOperations s \<Longrightarrow>
   rateLimited_calls nows s =
     (replicate (length nows) False, s\<lparr>history := history s @ nows\<rparr>)"
proof (induction nows arbitrary: s)
  case Nil
  then show ?case by simp
next
  case (Cons now nows)
  let ?s' = "s\<lparr>history := history s @ [now]\<rparr>"
  from Cons.prems have step: "rateLimited now s = (False, ?s')"
    by (intro rateLimited_below) simp
  from Cons.prems have "int (length (history ?s')) + int (length nows) \<le> maxOperations ?s'"
    by simp
  from Cons.IH [OF this] step show ?case by simp
qed

lemma rateLimited_calls_Cons:
  "fst (rateLimited_calls (now # nows) s) =
     fst (rateLimited now s) # fst (rateLimited_calls nows (snd (rateLimited now s)))"
  "snd (rateLimited_calls (now # nows) s) = snd (rateLimited_calls nows (snd (rateLimited now s)))"
  by (simp_all split: prod.splits)

lemma rateLimited_calls_fresh:
  "int (length nows) \<le> N \<Longrightarrow>
   rateLimited_calls nows (RateLimiter_constructor N T) =
     (replicate (length nows) False, \<lparr>maxOperations = N, timePeriod = T, history = nows\<rparr>)"
  using rateLimited_calls_below [of "RateLimiter_constructor N T" nows]
  by (simp add: RateLimiter_constructor_def)

subsection \<open>A burst of \<open>maxOperations\<close> calls and the call after it\<close>

text \<open>
  Claim C1. A limiter built with \<open>maxOperations = N \<ge> 1\<close> and \<open>timePeriod = T > 0\<close> starts
  with an empty history. \<open>N\<close> calls at the same instant \<open>t0\<close> all answer false. A further
  call at time \<open>t\<close> answers true when \<open>t - t0 < T\<close> and false when \<open>T \<le> t - t0\<close>. The
  scenario \<open>N = 2\<close>, \<open>T = 1000\<close> with calls at 0, 100, 200 and 1300 answers
  false, false, true, false.
\<close>

theorem C1_burst_then_window:
  assumes "1 \<le> N" and "0 < T"
  shows "fst (rateLimited_calls (replicate (nat N) t0) (RateLimiter_constructor N T))
           = replicate (nat N) False
       \<and> (t - t0 < T \<longrightarrow>
            fst (rateLimited t
              (snd (rateLimited_calls (replicate (nat N) t0) (RateLimiter_constructor N T)))) = True)
       \<and> (T \<le> t - t0 \<longrightarrow>
            fst (rateLimited t
              (snd (rateLimited_calls (replicate (nat N) t0) (RateLimiter_constructor N T)))) = False)
       \<and> fst (rateLimited_calls [0, 100, 200, 1300] (RateLimiter_constructor 2 1000))
           = [False, False, True, False]"
proof -
  let ?burst = "replicate (nat N) t0"
  let ?full = "\<lparr>maxOperations = N, timePeriod = T, history = ?burst\<rparr>"
  from assms have len: "int (length ?burst) \<le> N" by simp
  have run: "rateLimited_calls ?burst (RateLimiter_constructor N T) = (replicate (nat N) False, ?full)"
    using rateLimited_calls_fresh [OF len, of T] by simp
  from assms obtain rest where hist: "history ?full = t0 # rest"
    by (cases "nat N") auto
  from assms have "maxOperations ?full \<le> int (length (history ?full))" by simp
  from rateLimited_full [OF hist this]
  have next_call: "fst (rateLimited t ?full) = (t - t0 < T)" by simp
  have scenario: "fst (rateLimited_calls [0, 100, 200, 1300] (RateLimiter_constructor 2 1000))
           = [False, False, True, False]"
    by (simp add: RateLimiter_constructor_def rateLimited_def push_def Let_def)
  from run next_call scenario show ?thesis by simp
qed

theorem C1_burst_then_window_witness:
  "fst (rateLimited_calls (replicate (nat 3) 50) (RateLimiter_constructor 3 1000))
           = replicate (nat 3) False
   \<and> fst (rateLimited 1049
              (snd (rateLimited_calls (replicate (nat 3) 50) (RateLimiter_constructor 3 1000)))) = True
   \<and> fst (rateLimited 1050
              (snd (rateLimited_calls (replicate (nat 3) 50) (RateLimiter_constructor 3 1000)))) = False"
  using C1_burst_then_window [of 3 1000 50 1049] C1_burst_then_window [of 3 1000 50 1050]
  by (simp del: rateLimited_calls.simps)

subsection \<open>No permanent lockout\<close>

text \<open>
  A limited report leaves the history holding exactly \<open>maxOperations\<close> timestamps, when it
  held at most that many before.
\<close>

lemma limited_report_fills_history:
  assumes "int (length (history s)) \<le> maxOperations s" and "fst (rateLimited now s)"
  shows "int (length (history (snd (rateLimited now s)))) = maxOperations s"
  using assms by (cases "history s") (auto simp: rateLimited_def push_def Let_def split: if_splits)

text \<open>
  Claim C4. When \<open>maxOperations = N \<ge> 1\<close> and the history holds \<open>N\<close> timestamps, the oldest
  of them at the front, a call made at least \<open>timePeriod\<close> milliseconds after that oldest
  timestamp answers false.
\<close>

theorem C4_no_permanent_lockout:
  assumes "1 \<le> maxOperations s"
    and "int (length (history s)) = maxOperations s"
    and "history s = oldest # rest"
    and "timePeriod s \<le> now - oldest"
  shows "fst (rateLimited now s) = False"
  using assms rateLimited_full [of s oldest rest now] by simp

theorem C4_no_permanent_lockout_witness:
  "fst (rateLimited 1300 \<lparr>maxOperations = 2, timePeriod = 1000, history = [100, 200]\<rparr>) = False"
  using C4_no_permanent_lockout
    [of "\<lparr>maxOperations = 2, timePeriod = 1000, history = [100, 200]\<rparr>" 100 "[200]" 1300]
  by simp

subsection \<open>The history stays bounded and ordered\<close>

lemma rateLimited_length:
  assumes "0 \<le> maxOperations s" and "int (length (history s)) \<le> maxOperations s"
  shows "int (length (history (snd (rateLimited now s)))) \<le> maxOperations s"
  using assms by (cases "history s") (auto simp: rateLimited_def push_def Let_def)

lemma rateLimited_calls_maxOperations:
  "maxOperations (snd (rateLimited_calls nows s)) = maxOperations s"
proof (induction nows arbitrary: s)
  case Nil
  show ?case by simp
next
  case (Cons now nows)
  from Cons.IH [of "snd (rateLimited now s)"] rateLimited_maxOperations [of now s]
  show ?case by (simp only: rateLimited_calls_Cons)
qed

lemma rateLimited_calls_length:
  assumes "0 \<le> maxOperations s" and "int (length (history s)) \<le> maxOperations s"
  shows "int (length (history (snd (rateLimited_calls nows s)))) \<le> maxOperations s"
  using assms
proof (induction nows arbitrary: s)
  case Nil
  then show ?case by simp
next
  case (Cons now nows)
  let ?s' = "snd (rateLimited now s)"
  have m: "maxOperations ?s' = maxOperations s" by (rule rateLimited_maxOperations)
  from Cons.prems have "int (length (history ?s')) \<le> maxOperations ?s'"
    using rateLimited_length [of s now] m by simp
  with Cons.prems m have "int (length (history (snd (rateLimited_calls nows ?s')))) \<le> maxOperations ?s'"
    by (intro Cons.IH) simp_all
  with m show ?case by (simp only: rateLimited_calls_Cons)
qed

text \<open>
  Each call leaves either the old history with \<open>now\<close> appended or that list without its
  front, so a run over non-decreasing clock readings keeps the history ordered.
\<close>

lemma rateLimited_calls_sorted:
  "sorted (history s @ nows) \<Longrightarrow> sorted (history (snd (rateLimited_calls nows s)))"
proof (induction nows arbitrary: s)
  case Nil
  then show ?case by simp
next
  case (Cons now nows)
  let ?s' = "snd (rateLimited now s)"
  from Cons.prems have whole: "sorted ((history s @ [now]) @ nows)" by simp
  have "sorted (history ?s' @ nows)"
  proof (cases "history ?s' = history s @ [now]")
    case True
    with whole show ?thesis by simp
  next
    case False
    with rateLimited_history_cases [of now s]
    have "history ?s' = tl (history s @ [now])" by simp
    moreover from whole have "sorted (tl (history s @ [now]) @ nows)"
      by (cases "history s") (simp_all add: sorted_append)
    ultimately show ?thesis by simp
  qed
  from Cons.IH [OF this] show ?case by (simp only: rateLimited_calls_Cons)
qed

text \<open>
  Claim C5. For a limiter with \<open>maxOperations \<ge> 0\<close> whose history holds at most
  \<open>maxOperations\<close> entries, the history holds at most \<open>maxOperations\<close> entries again after a
  call, and after any run of calls. When the stored timestamps followed by the clock
  readings of the run are non-decreasing, the history after the run is non-decreasing
  from front to back.
\<close>

theorem C5_history_invariant:
  assumes "0 \<le> maxOperations s" and "int (length (history s)) \<le> maxOperations s"
  shows "int (length (history (snd (rateLimited now s))))
           \<le> maxOperations (snd (rateLimited now s))
       \<and> int (length (history (snd (rateLimited_calls nows s))))
           \<le> maxOperations (snd (rateLimited_calls nows s))
       \<and> (sorted (history s @ nows) \<longrightarrow> sorted (history (snd (rateLimited_calls nows s))))"
  using rateLimited_length [OF assms] rateLimited_calls_length [OF assms]
    rateLimited_calls_sorted [of s nows]
  by (simp add: rateLimited_maxOperations rateLimited_calls_maxOperations)

theorem C5_history_invariant_witness:
  "int (length (history (snd (rateLimited 7 (RateLimiter_constructor 2 1000))))) \<le> 2
   \<and> history (snd (rateLimited_calls [0, 100, 200, 1300] (RateLimiter_constructor 2 1000)))
        = [200, 1300]
   \<and> sorted (history (snd (rateLimited_calls [0, 100, 200, 1300] (RateLimiter_constructor 2 1000))))"
  using C5_history_invariant [of "RateLimiter_constructor 2 1000" 7 "[0, 100, 200, 1300]"]
  by (simp add: RateLimiter_constructor_def rateLimited_def push_def Let_def)

subsection \<open>The degenerate limiter with \<open>maxOperations = 0\<close>\<close>

lemma rateLimited_zero:
  "0 < T \<Longrightarrow> rateLimited now (RateLimiter_constructor 0 T) = (True, RateLimiter_constructor 0 T)"
  by (simp add: RateLimiter_constructor_def rateLimited_def push_def Let_def)

text \<open>
  Claim C9. A limiter built with \<open>maxOperations = 0\<close> and \<open>timePeriod > 0\<close> answers true on
  every call: the timestamp just pushed is the one shifted out again, so the history is
  empty after the call as it was before, and every call of a run answers true.
\<close>

theorem C9_zero_capacity:
  assumes "0 < T"
  shows "rateLimited now (RateLimiter_constructor 0 T) = (True, RateLimiter_constructor 0 T)
       \<and> shift (push (history (RateLimiter_constructor 0 T)) now) = (Some now, [])
       \<and> rateLimited_calls nows (RateLimiter_constructor 0 T)
           = (replicate (length nows) True, RateLimiter_constructor 0 T)"
proof -
  have "rateLimited_calls nows (RateLimiter_constructor 0 T)
           = (replicate (length nows) True, RateLimiter_constructor 0 T)"
    by (induction nows) (simp_all add: rateLimited_zero [OF assms])
  moreover have "shift (push (history (RateLimiter_constructor 0 T)) now) = (Some now, [])"
    by (simp add: RateLimiter_constructor_def push_def)
  ultimately show ?thesis using rateLimited_zero [OF assms] by simp
qed

theorem C9_zero_capacity_witness:
  "rateLimited 5 (RateLimiter_constructor 0 1000) = (True, RateLimiter_constructor 0 1000)
   \<and> fst (rateLimited_calls [5, 5, 2000] (RateLimiter_constructor 0 1000)) = [True, True, True]"
  using C9_zero_capacity [of 1000 5 "[5, 5, 2000]"] by (simp del: rateLimited_calls.simps)

section \<open>Properties of the room\<close>

subsection \<open>Arrays\<close>

lemma indexOf_lower: "- 1 \<le> indexOf xs x"
  by (induction xs) (simp_all add: Let_def)

lemma indexOf_absent: "indexOf xs x = - 1 \<longleftrightarrow> x \<notin> set xs"
proof (induction xs)
  case Nil
  show ?case by simp
next
  case (Cons y ys)
  from indexOf_lower [of ys x] have "indexOf ys x + 1 \<noteq> - 1" by simp
  with Cons show ?case by (simp add: Let_def)
qed

lemma indexOf_present: "x \<in> set xs \<Longrightarrow> 0 \<le> indexOf xs x \<and> indexOf xs x < int (length xs)"
proof (induction xs)
  case Nil
  then show ?case by simp
next
  case (Cons y ys)
  show ?case
  proof (cases "y = x")
    case True
    then show ?thesis by simp
  next
    case False
    with Cons.prems have mem: "x \<in> set ys" by simp
    from Cons.IH [OF mem] False show ?thesis by (simp add: Let_def)
  qed
qed

lemma cut_at_indexOf:
  "x \<in> set xs \<Longrightarrow>
   take (nat (indexOf xs x)) xs @ drop (nat (indexOf xs x) + 1) xs = remove1 x xs"
proof (induction xs)
  case Nil
  then show ?case by simp
next
  case (Cons y ys)
  show ?case
  proof (cases "y = x")
    case True
    then show ?thesis by simp
  next
    case False
    with Cons.prems have mem: "x \<in> set ys" by simp
    from indexOf_present [OF mem] have "nat (indexOf ys x + 1) = Suc (nat (indexOf ys x))"
      by linarith
    with Cons.IH [OF mem] indexOf_present [OF mem] False show ?thesis
      by (simp add: Let_def)
  qed
qed

lemma Array_splice_indexOf:
  "x \<in> set xs \<Longrightarrow> Array_splice (indexOf xs x) 1 xs = remove1 x xs"
  using indexOf_present [of x xs] cut_at_indexOf [of x xs]
  by (simp add: Array_splice_def Let_def min_def)

subsection \<open>Map\<close>

lemma Map_keys_distinct: "distinct (Map_keys m)"
  using entries [of m] by (simp add: Map_keys_def)

lemma Map_keys_new: "Map_keys Map_new = []"
  by (simp add: Map_keys_def Map_new.rep_eq)

lemma Map_keys_set:
  "Map_keys (Map_set k v m) = (if k \<in> set (Map_keys m) then Map_keys m else Map_keys m @ [k])"
  by (simp add: Map_keys_def Map_set.rep_eq keys_entries_set)

lemma map_of_entries_set:
  "map_of (entries_set k v es) k' = (if k' = k then Some v else map_of es k')"
  by (induction es) auto

lemma Map_get_set: "Map_get k' (Map_set k v m) = (if k' = k then Some v else Map_get k' m)"
  by (simp add: Map_get_def Map_set.rep_eq map_of_entries_set)

lemma entries_set_absent: "k \<notin> set (map fst es) \<Longrightarrow> entries_set k v es = es @ [(k, v)]"
  by (induction es) auto

lemma Map_set_absent:
  "\<not> Map_has k m \<Longrightarrow> entries (Map_set k v m) = entries m @ [(k, v)]"
  by (simp add: Map_has_def Map_keys_def Map_set.rep_eq entries_set_absent)

lemma Map_has_set: "Map_has k (Map_set k v m)"
  by (simp add: Map_has_def Map_keys_set)

lemma Map_size_keys: "Map_size m = length (Map_keys m)"
  by (simp add: Map_size_def Map_keys_def)

subsection \<open>Membership\<close>

lemma addClient_member: "c \<in> set (clients r) \<Longrightarrow> addClient c r = (Inl AlreadyMember, r)"
  by (simp add: addClient_def Array_includes_def)

lemma addClient_fresh:
  "c \<notin> set (clients r) \<Longrightarrow> addClient c r = (Inr (), r\<lparr>clients := clients r @ [c]\<rparr>)"
  by (simp add: addClient_def Array_includes_def push_def)

lemma removeClient_absent: "c \<notin> set (clients r) \<Longrightarrow> removeClient now c r = (Inl NotMember, r)"
  using indexOf_absent [of "clients r" c] by (simp add: removeClient_def)

lemma removeClient_member:
  "c \<in> set (clients r) \<Longrightarrow>
   removeClient now c r =
     (Inr (), r\<lparr>clients := remove1 c (clients r), lastDisconnectTime := now\<rparr>)"
  using indexOf_absent [of "clients r" c] Array_splice_indexOf [of c "clients r"]
  by (simp add: removeClient_def)

text \<open>
  Claim C6. \<open>addClient c\<close> throws \<open>AlreadyMember\<close> exactly when \<open>c\<close> is among the
  clients, and otherwise appends \<open>c\<close>. \<open>removeClient c\<close> throws \<open>NotMember\<close> exactly when
  \<open>c\<close> is absent, and otherwise removes \<open>c\<close> and stores the clock reading \<open>now\<close> in
  \<open>lastDisconnectTime\<close>, which is at least any time \<open>before\<close> read earlier from a clock
  that does not go back. A call that throws leaves the room, and so \<open>clients\<close> and
  \<open>lastDisconnectTime\<close>, as it was.
\<close>

theorem C6_membership:
  "(fst (addClient c r) = Inl AlreadyMember \<longleftrightarrow> c \<in> set (clients r))
   \<and> (c \<in> set (clients r) \<longrightarrow> addClient c r = (Inl AlreadyMember, r))
   \<and> (c \<notin> set (clients r) \<longrightarrow>
        addClient c r = (Inr (), r\<lparr>clients := clients r @ [c]\<rparr>))
   \<and> (fst (removeClient now c r) = Inl NotMember \<longleftrightarrow> c \<notin> set (clients r))
   \<and> (c \<notin> set (clients r) \<longrightarrow> removeClient now c r = (Inl NotMember, r))
   \<and> (c \<in> set (clients r) \<longrightarrow>
        removeClient now c r =
          (Inr (), r\<lparr>clients := remove1 c (clients r), lastDisconnectTime := now\<rparr>))
   \<and> (c \<in> set (clients r) \<and> distinct (clients r) \<longrightarrow>
        c \<notin> set (clients (snd (removeClient now c r))))
   \<and> (c \<in> set (clients r) \<and> before \<le> now \<longrightarrow>
        before \<le> lastDisconnectTime (snd (removeClient now c r)))"
proof (cases "c \<in> set (clients r)")
  case True
  from addClient_member [OF True] removeClient_member [OF True, of now] True
  show ?thesis by simp
next
  case False
  from addClient_fresh [OF False] removeClient_absent [OF False, of now] False
  show ?thesis by simp
qed

theorem C6_membership_witness:
  "fst (addClient 7 (Room_constructor ''lobby'')) = Inr ()
   \<and> clients (snd (addClient 7 (Room_constructor ''lobby''))) = [7]
   \<and> addClient 7 (snd (addClient 7 (Room_constructor ''lobby'')))
        = (Inl AlreadyMember, snd (addClient 7 (Room_constructor ''lobby'')))
   \<and> removeClient 1000 7 (Room_constructor ''lobby'') = (Inl NotMember, Room_constructor ''lobby'')
   \<and> fst (removeClient 1000 7 (snd (addClient 7 (Room_constructor ''lobby'')))) = Inr ()
   \<and> clients (snd (removeClient 1000 7 (snd (addClient 7 (Room_constructor ''lobby''))))) = []
   \<and> 999 \<le> lastDisconnectTime (snd (removeClient 1000 7 (snd (addClient 7 (Room_constructor ''lobby'')))))"
  using C6_membership [of 7 "Room_constructor ''lobby''" 1000 999]
    C6_membership [of 7 "snd (addClient 7 (Room_constructor ''lobby''))" 1000 999]
  by (simp add: Room_constructor_def)

subsection \<open>Variables\<close>

lemma create_cases:
  "create vs name value r =
     (if \<not> isValidVariableName vs name then (Inl InvalidName, r)
      else if \<not> isValidVariableValue vs value then (Inl InvalidValue, r)
      else if Map_has name (variables r) then (Inl AlreadyExists, r)
      else if maxVariables r \<le> int (Map_size (variables r)) then (Inl Capacity, r)
      else (Inr (), r\<lparr>variables := Map_set name value (variables r)\<rparr>))"
  by (simp add: create_def has_def)

lemma set_room_cases:
  "set_room vs name value r =
     (if \<not> isValidVariableName vs name then (Inl InvalidName, r)
      else if \<not> isValidVariableValue vs value then (Inl InvalidValue, r)
      else if \<not> Map_has name (variables r) then (Inl NotFound, r)
      else (Inr (), r\<lparr>variables := Map_set name value (variables r)\<rparr>))"
  by (simp add: set_room_def has_def)

text \<open>
  Claim C3. \<open>create name value\<close> throws \<open>InvalidName\<close> when the name validator rejects
  \<open>name\<close>; otherwise \<open>InvalidValue\<close> when the value validator rejects \<open>value\<close>; otherwise
  \<open>AlreadyExists\<close> when the room has a variable \<open>name\<close>; otherwise \<open>Capacity\<close> when the
  number of variables is at least \<open>maxVariables\<close>; otherwise it returns normally, the entry
  \<open>(name, value)\<close> is appended to the variables and \<open>has name\<close> is true afterwards. A
  call that throws leaves the room, and so the variables, unchanged.
\<close>

theorem C3_create:
  "(\<not> isValidVariableName vs name \<longrightarrow> fst (create vs name value r) = Inl InvalidName)
   \<and> (isValidVariableName vs name \<and> \<not> isValidVariableValue vs value \<longrightarrow>
        fst (create vs name value r) = Inl InvalidValue)
   \<and> (isValidVariableName vs name \<and> isValidVariableValue vs value \<and> fst (has name r) \<longrightarrow>
        fst (create vs name value r) = Inl AlreadyExists)
   \<and> (isValidVariableName vs name \<and> isValidVariableValue vs value \<and> \<not> fst (has name r)
        \<and> maxVariables r \<le> int (Map_size (variables r)) \<longrightarrow>
        fst (create vs name value r) = Inl Capacity)
   \<and> (isValidVariableName vs name \<and> isValidVariableValue vs value \<and> \<not> fst (has name r)
        \<and> int (Map_size (variables r)) < maxVariables r \<longrightarrow>
        fst (create vs name value r) = Inr ()
        \<and> entries (variables (snd (create vs name value r)))
            = entries (variables r) @ [(name, value)]
        \<and> Map_get name (variables (snd (create vs name value r))) = Some value
        \<and> fst (has name (snd (create vs name value r))))
   \<and> (isl (fst (create vs name value r)) \<longrightarrow> snd (create vs name value r) = r)"
  by (simp add: create_cases has_def Map_set_absent Map_get_set Map_has_set)

lemma full_room_keys:
  "Map_keys (variables full_room) = [''a'', ''b'', ''c'', ''d'', ''e'', ''f'', ''g'', ''h'', ''i'', ''j'']"
  by (simp add: full_room_def create_cases sample_validators_def Room_constructor_def
      Map_has_def Map_size_keys Map_keys_set Map_keys_new)

lemma full_room_maxVariables: "maxVariables full_room = 10"
  by (simp add: full_room_def create_cases sample_validators_def Room_constructor_def
      Map_has_def Map_size_keys Map_keys_set Map_keys_new)

theorem C3_create_witness:
  "create sample_validators [] ''long!'' (Room_constructor ''lobby'')
     = (Inl InvalidName, Room_constructor ''lobby'')
   \<and> create sample_validators ''x'' ''long!'' (Room_constructor ''lobby'')
     = (Inl InvalidValue, Room_constructor ''lobby'')
   \<and> fst (create sample_validators ''x'' ''1'' (Room_constructor ''lobby'')) = Inr ()
   \<and> fst (has ''x'' (snd (create sample_validators ''x'' ''1'' (Room_constructor ''lobby''))))
   \<and> create sample_validators ''a'' ''1'' full_room = (Inl AlreadyExists, full_room)
   \<and> create sample_validators ''k'' ''1'' full_room = (Inl Capacity, full_room)"
  using C3_create [of sample_validators "[]" "''long!''" "Room_constructor ''lobby''"]
    C3_create [of sample_validators "''x''" "''long!''" "Room_constructor ''lobby''"]
    C3_create [of sample_validators "''x''" "''1''" "Room_constructor ''lobby''"]
    C3_create [of sample_validators "''a''" "''1''" full_room]
    C3_create [of sample_validators "''k''" "''1''" full_room]
  by (simp add: prod_eq_iff sample_validators_def has_def Map_has_def Map_size_keys
      full_room_keys full_room_maxVariables Room_constructor_def Map_keys_new)

text \<open>
  Claim C7. \<open>set name value\<close> throws \<open>InvalidName\<close> or \<open>InvalidValue\<close> on the verdict of
  the validators that \<open>create\<close> uses, in that order, and \<open>NotFound\<close> when the room has no
  variable \<open>name\<close>. Otherwise it returns normally and the map that \<open>getAllVariables\<close>
  returns holds \<open>value\<close> under \<open>name\<close>, with the same keys as before and every other
  value as before. A call that throws leaves the room, and so the variables, unchanged.
\<close>

theorem C7_set:
  "(\<not> isValidVariableName vs name \<longrightarrow> fst (set_room vs name value r) = Inl InvalidName)
   \<and> (isValidVariableName vs name \<and> \<not> isValidVariableValue vs value \<longrightarrow>
        fst (set_room vs name value r) = Inl InvalidValue)
   \<and> (isValidVariableName vs name \<and> isValidVariableValue vs value \<and> \<not> fst (has name r) \<longrightarrow>
        fst (set_room vs name value r) = Inl NotFound)
   \<and> (isValidVariableName vs name \<and> isValidVariableValue vs value \<and> fst (has name r) \<longrightarrow>
        fst (set_room vs name value r) = Inr ()
        \<and> Map_get name (fst (getAllVariables (snd (set_room vs name value r)))) = Some value
        \<and> Map_keys (fst (getAllVariables (snd (set_room vs name value r))))
            = Map_keys (fst (getAllVariables r))
        \<and> (other \<noteq> name \<longrightarrow>
             Map_get other (fst (getAllVariables (snd (set_room vs name value r))))
               = Map_get other (fst (getAllVariables r))))
   \<and> (isl (fst (set_room vs name value r)) \<longrightarrow> snd (set_room vs name value r) = r)"
  by (simp add: set_room_cases has_def getAllVariables_def Map_get_set Map_keys_set Map_has_def)

theorem C7_set_witness:
  "set_room sample_validators [] ''long!'' full_room = (Inl InvalidName, full_room)
   \<and> set_room sample_validators ''a'' ''long!'' full_room = (Inl InvalidValue, full_room)
   \<and> set_room sample_validators ''k'' ''1'' full_room = (Inl NotFound, full_room)
   \<and> fst (set_room sample_validators ''a'' ''1'' full_room) = Inr ()
   \<and> Map_get ''a'' (fst (getAllVariables (snd (set_room sample_validators ''a'' ''1'' full_room))))
       = Some ''1''
   \<and> Map_get ''b'' (fst (getAllVariables (snd (set_room sample_validators ''a'' ''1'' full_room))))
       = Map_get ''b'' (fst (getAllVariables full_room))"
  using C7_set [of sample_validators "[]" "''long!''" full_room]
    C7_set [of sample_validators "''a''" "''long!''" full_room]
    C7_set [of sample_validators "''k''" "''1''" full_room]
    C7_set [of sample_validators "''a''" "''1''" full_room "''b''"]
  by (simp add: prod_eq_iff sample_validators_def has_def Map_has_def full_room_keys)

subsection \<open>matchesVariableList\<close>

lemma matchesVariableList_loop_subset:
  "matchesVariableList_loop names keys \<longleftrightarrow> set keys \<subseteq> set names"
  by (induction keys) (simp_all add: indexOf_absent)

lemma matchesVariableList_eq:
  "fst (matchesVariableList names r) \<longleftrightarrow>
     length names = length (Map_keys (variables r)) \<and> set (Map_keys (variables r)) \<subseteq> set names"
  by (simp add: matchesVariableList_def getAllVariables_def Map_size_keys
      matchesVariableList_loop_subset)

lemma same_length_subset_iff:
  assumes "distinct xs" and "distinct ys"
  shows "length xs = length ys \<and> set ys \<subseteq> set xs \<longleftrightarrow> set xs = set ys"
proof
  assume h: "length xs = length ys \<and> set ys \<subseteq> set xs"
  with assms have "card (set ys) = card (set xs)" by (simp add: distinct_card)
  with h have "set ys = set xs" by (intro card_subset_eq) simp_all
  then show "set xs = set ys" by simp
next
  assume h: "set xs = set ys"
  with assms have "length xs = length ys" by (metis distinct_card)
  with h show "length xs = length ys \<and> set ys \<subseteq> set xs" by simp
qed

text \<open>
  Claim C8. For a list \<open>names\<close> without duplicates, \<open>matchesVariableList names\<close> is true
  exactly when the set of the strings in \<open>names\<close> is the set of the variable names stored
  in the room; strings are compared as they are, so case matters. Any other duplicate-free
  list with the same elements, in whatever order, gets the same answer.
\<close>

theorem C8_matchesVariableList:
  assumes "distinct names"
  shows "(fst (matchesVariableList names r) \<longleftrightarrow> set names = set (Map_keys (variables r)))
       \<and> (distinct names' \<and> set names' = set names \<longrightarrow>
            fst (matchesVariableList names' r) = fst (matchesVariableList names r))"
proof -
  have iff: "fst (matchesVariableList ns r) \<longleftrightarrow> set ns = set (Map_keys (variables r))"
    if "distinct ns" for ns
    using same_length_subset_iff [OF that Map_keys_distinct, of "variables r"]
    by (simp add: matchesVariableList_eq)
  from iff [OF assms] iff [of names'] show ?thesis by simp
qed

theorem C8_matchesVariableList_witness:
  "fst (matchesVariableList [''x'', ''y'']
         (snd (create sample_validators ''y'' ''2''
           (snd (create sample_validators ''x'' ''1'' (Room_constructor ''lobby''))))))
   \<and> fst (matchesVariableList [''y'', ''x'']
         (snd (create sample_validators ''y'' ''2''
           (snd (create sample_validators ''x'' ''1'' (Room_constructor ''lobby''))))))
   \<and> \<not> fst (matchesVariableList [''x'', ''Y'']
         (snd (create sample_validators ''y'' ''2''
           (snd (create sample_validators ''x'' ''1'' (Room_constructor ''lobby''))))))
   \<and> \<not> fst (matchesVariableList [''x'']
         (snd (create sample_validators ''y'' ''2''
           (snd (create sample_validators ''x'' ''1'' (Room_constructor ''lobby''))))))"
  using
    C8_matchesVariableList [of "[''x'', ''y'']"
      "snd (create sample_validators ''y'' ''2''
         (snd (create sample_validators ''x'' ''1'' (Room_constructor ''lobby''))))" "[''y'', ''x'']"]
    C8_matchesVariableList [of "[''x'', ''Y'']"
      "snd (create sample_validators ''y'' ''2''
         (snd (create sample_validators ''x'' ''1'' (Room_constructor ''lobby''))))" "[]"]
    C8_matchesVariableList [of "[''x'']"
      "snd (create sample_validators ''y'' ''2''
         (snd (create sample_validators ''x'' ''1'' (Room_constructor ''lobby''))))" "[]"]
  by (simp add: create_cases sample_validators_def Room_constructor_def
      Map_has_def Map_size_keys Map_keys_set Map_keys_new doubleton_eq_iff)

subsection \<open>Frame\<close>

text \<open>
  Claim C10. \<open>create\<close> and \<open>set\<close> leave \<open>id\<close>, \<open>clients\<close> and \<open>lastDisconnectTime\<close> as they
  were; \<open>addClient\<close> leaves \<open>id\<close>, \<open>variables\<close> and \<open>lastDisconnectTime\<close> as they were;
  \<open>removeClient\<close> leaves \<open>id\<close> and \<open>variables\<close> as they were; and the room after \<open>has\<close>,
  \<open>hasClientWithUsername\<close>, \<open>matchesVariableList\<close>, \<open>getClients\<close> or \<open>getAllVariables\<close> is the
  room before it.
\<close>

theorem C10_frame:
  "id_room (snd (create vs name value r)) = id_room r
   \<and> clients (snd (create vs name value r)) = clients r
   \<and> lastDisconnectTime (snd (create vs name value r)) = lastDisconnectTime r
   \<and> id_room (snd (set_room vs name value r)) = id_room r
   \<and> clients (snd (set_room vs name value r)) = clients r
   \<and> lastDisconnectTime (snd (set_room vs name value r)) = lastDisconnectTime r
   \<and> id_room (snd (addClient c r)) = id_room r
   \<and> variables (snd (addClient c r)) = variables r
   \<and> lastDisconnectTime (snd (addClient c r)) = lastDisconnectTime r
   \<and> id_room (snd (removeClient now c r)) = id_room r
   \<and> variables (snd (removeClient now c r)) = variables r
   \<and> snd (has name r) = r
   \<and> snd (hasClientWithUsername username_of username r) = r
   \<and> snd (matchesVariableList names r) = r
   \<and> snd (getClients r) = r
   \<and> snd (getAllVariables r) = r"
  by (simp add: create_cases set_room_cases addClient_def removeClient_def has_def
      hasClientWithUsername_def matchesVariableList_def getClients_def getAllVariables_def
      Let_def)

subsection \<open>Usernames\<close>

lemma hasClientWithUsername_iff:
  "fst (hasClientWithUsername username_of username r) \<longleftrightarrow>
     (\<exists>i \<in> set (clients r). toLowerCase (username_of i) = toLowerCase username)"
  by (simp add: hasClientWithUsername_def getClients_def Let_def list_ex_iff)

lemma usernames_unique_subset:
  "usernames_unique username_of r \<Longrightarrow> set (clients r') \<subseteq> set (clients r) \<Longrightarrow>
   usernames_unique username_of r'"
  unfolding usernames_unique_def by blast

lemma usernames_unique_addClient:
  assumes "usernames_unique username_of r"
    and "\<not> fst (hasClientWithUsername username_of (username_of c) r)"
  shows "usernames_unique username_of (snd (addClient c r))"
proof (cases "c \<in> set (clients r)")
  case True
  with assms(1) show ?thesis by (simp add: addClient_member)
next
  case False
  from assms(2) have other:
    "\<forall>i \<in> set (clients r). toLowerCase (username_of i) \<noteq> toLowerCase (username_of c)"
    by (simp add: hasClientWithUsername_iff)
  have "clients (snd (addClient c r)) = clients r @ [c]"
    using False by (simp add: addClient_fresh)
  with assms(1) other show ?thesis
    unfolding usernames_unique_def by (auto simp: eq_commute [of "toLowerCase (username_of c)"])
qed

text \<open>
  Claim C2, as the code has it. \<open>addClient\<close> looks at the identity of the client only, so
  the room does not keep usernames unique by itself. A fresh room has unique usernames.
  From a room with unique usernames, \<open>addClient c\<close> gives a room with unique usernames
  when \<open>hasClientWithUsername\<close> answered false for the username of \<open>c\<close> just before, and
  \<open>removeClient\<close>, \<open>create\<close> and \<open>set\<close> always do. The usernames of the client objects are
  fixed throughout.
\<close>

theorem C2_usernames_unique_when_checked:
  assumes "usernames_unique username_of r"
  shows "(\<not> fst (hasClientWithUsername username_of (username_of c) r) \<longrightarrow>
            usernames_unique username_of (snd (addClient c r)))
       \<and> usernames_unique username_of (snd (removeClient now c r))
       \<and> usernames_unique username_of (snd (create vs name value r))
       \<and> usernames_unique username_of (snd (set_room vs name value r))
       \<and> usernames_unique username_of (Room_constructor ident)"
proof -
  have "set (clients (snd (removeClient now c r))) \<subseteq> set (clients r)"
    by (cases "c \<in> set (clients r)")
      (use set_remove1_subset [of c "clients r"] in
        \<open>auto simp: removeClient_member removeClient_absent\<close>)
  with assms have "usernames_unique username_of (snd (removeClient now c r))"
    by (rule usernames_unique_subset)
  moreover have "usernames_unique username_of (snd (create vs name value r))"
    using assms by (rule usernames_unique_subset) (simp add: create_cases)
  moreover have "usernames_unique username_of (snd (set_room vs name value r))"
    using assms by (rule usernames_unique_subset) (simp add: set_room_cases)
  moreover have "usernames_unique username_of (Room_constructor ident)"
    by (simp add: usernames_unique_def Room_constructor_def)
  ultimately show ?thesis
    using usernames_unique_addClient [OF assms, of c] by simp
qed

theorem C2_usernames_unique_when_checked_witness:
  "usernames_unique alice_and_Bob (snd (addClient 1 (Room_constructor ''lobby'')))
   \<and> \<not> fst (hasClientWithUsername alice_and_Bob (alice_and_Bob 2)
              (snd (addClient 1 (Room_constructor ''lobby''))))
   \<and> clients (snd (addClient 2 (snd (addClient 1 (Room_constructor ''lobby''))))) = [1, 2]
   \<and> usernames_unique alice_and_Bob
        (snd (addClient 2 (snd (addClient 1 (Room_constructor ''lobby'')))))
   \<and> usernames_unique alice_and_Bob
        (snd (removeClient 5 1 (snd (addClient 1 (Room_constructor ''lobby'')))))"
proof -
  let ?r1 = "snd (addClient 1 (Room_constructor ''lobby''))"
  have unique: "usernames_unique alice_and_Bob ?r1"
    by (simp add: usernames_unique_def addClient_def Array_includes_def push_def
        Room_constructor_def)
  have free_name: "\<not> fst (hasClientWithUsername alice_and_Bob (alice_and_Bob 2) ?r1)"
    by (simp add: hasClientWithUsername_def getClients_def Let_def addClient_def
        Array_includes_def push_def Room_constructor_def alice_and_Bob_def toLowerCase_def
        toLowerCase_char_def)
  have both: "clients (snd (addClient 2 ?r1)) = [1, 2]"
    by (simp add: addClient_def Array_includes_def push_def Room_constructor_def)
  from C2_usernames_unique_when_checked [OF unique, of 2 5] free_name
  have "usernames_unique alice_and_Bob (snd (addClient 2 ?r1))" by simp
  moreover from C2_usernames_unique_when_checked [OF unique, of 1 5]
  have "usernames_unique alice_and_Bob (snd (removeClient 5 1 ?r1))" by simp
  ultimately show ?thesis using unique free_name both by simp
qed

text \<open>
  Claim C2, as it is stated, fails. Two different clients with the usernames \<open>alice\<close> and
  \<open>Alice\<close> are added to a fresh room one after the other. Both calls return normally, and
  the room then holds two clients whose usernames are equal after \<open>toLowerCase\<close>.
\<close>

theorem C2_usernames_not_unique:
  "fst (addClient 1 (Room_constructor ''lobby'')) = Inr ()
   \<and> fst (addClient 2 (snd (addClient 1 (Room_constructor ''lobby'')))) = Inr ()
   \<and> clients (snd (addClient 2 (snd (addClient 1 (Room_constructor ''lobby''))))) = [1, 2]
   \<and> toLowerCase (alice_and_Alice 1) = toLowerCase (alice_and_Alice 2)
   \<and> usernames_unique alice_and_Alice (Room_constructor ''lobby'')
   \<and> \<not> usernames_unique alice_and_Alice
        (snd (addClient 2 (snd (addClient 1 (Room_constructor ''lobby'')))))"
  by (simp add: usernames_unique_def addClient_def Array_includes_def push_def
      Room_constructor_def alice_and_Alice_def toLowerCase_def toLowerCase_char_def)

end
